theory Spec2Isabelle
  imports Main
begin

section \<open>CustomRedirector: the rule engine of \<open>background.js\<close>\<close>

text \<open>
  The extension keeps an ordered list of redirect rules in \<open>chrome.storage\<close>. Before every
  top-level navigation the listener of \<open>chrome.webNavigation.onBeforeNavigate\<close> reads the
  list, compiles each enabled rule's wildcard pattern into a regular expression
  (\<open>matchesPattern\<close>) and sends the tab to the redirect of the first rule that matches and
  does not point at the URL being loaded.

  Diagnostic output (\<open>console.log\<close>, \<open>console.error\<close>) is left out of the model.
\<close>

subsection \<open>Strings and errors\<close>

text \<open>
  A JavaScript string is a sequence of 16-bit code units: a list of numbers, each below
  65536 in a string of the program. Nothing below depends on that bound. \<open>cu c\<close> is the
  code unit of an ASCII character and \<open>js s\<close> the JavaScript string of an ASCII literal.
\<close>

type_synonym code_unit = nat
type_synonym jsstring = "code_unit list"

definition cu :: "char \<Rightarrow> code_unit" where
  "cu c = of_char c"

definition js :: "string \<Rightarrow> jsstring" where
  "js s = map cu s"

text \<open>
  \<open>SyntaxError\<close> is what \<open>new RegExp\<close> throws on a source it does not accept, \<open>TypeError\<close>
  what reading a property of \<open>undefined\<close> throws. \<open>NotModelled\<close> marks regular-expression
  syntax outside the fragment modelled below; \<open>matchesPattern\<close> never builds such a
  source, as the section on compilation shows.
\<close>

datatype js_error = SyntaxError | TypeError | NotModelled

subsection \<open>Pattern to regular-expression source\<close>

definition backslash :: code_unit where
  "backslash = 0x5C"

text \<open>The character class \<^verbatim>\<open>[.+?^${}()|[\]\\]\<close> of the first \<open>replace\<close>.\<close>

definition isSpecial :: "code_unit \<Rightarrow> bool" where
  "isSpecial c = (c \<in> set (js ''.+?^${}()|[]'') \<or> c = backslash)"

text \<open>\<^verbatim>\<open>.replace(/[.+?^${}()|[\]\\]/g, "\\$&")\<close>: a backslash before every special character.\<close>

definition escapeSpecial :: "jsstring \<Rightarrow> jsstring" where
  "escapeSpecial s = concat (map (\<lambda>c. if isSpecial c then [backslash, c] else [c]) s)"

text \<open>\<^verbatim>\<open>.replace(/\*/g, ".*")\<close>.\<close>

definition replaceStar :: "jsstring \<Rightarrow> jsstring" where
  "replaceStar s = concat (map (\<lambda>c. if c = cu (CHR ''*'') then js ''.*'' else [c]) s)"

definition endsWith :: "jsstring \<Rightarrow> jsstring \<Rightarrow> bool" where
  "endsWith s t = (length t \<le> length s \<and> drop (length s - length t) s = t)"

text \<open>The value of the variable \<open>regexPattern\<close> when it is handed to \<open>new RegExp\<close>.\<close>

definition regexPattern :: "jsstring \<Rightarrow> jsstring" where
  "regexPattern pattern =
     (let regexPattern = replaceStar (escapeSpecial pattern) in
      if \<not> endsWith regexPattern (js ''.*'') then js ''^'' @ regexPattern @ js ''/?$''
      else js ''^'' @ regexPattern @ js ''$'')"

subsection \<open>The host's regular expressions\<close>

text \<open>
  \<open>new RegExp(source, "i")\<close> belongs to the JavaScript engine, not to the repository. The
  functions of \<open>background.js\<close> take it as a parameter: a constructor that either throws
  or returns an object whose \<open>test\<close> method is a predicate on strings. A \<open>test\<close> that
  throws ends in the same \<open>catch\<close> block, which returns \<open>false\<close>.
\<close>

type_synonym regexp = "jsstring \<Rightarrow> bool"
type_synonym regexp_ctor = "jsstring \<Rightarrow> js_error + regexp"

text \<open>
  What ECMAScript prescribes for a source with the flag \<open>i\<close> (no \<open>u\<close>, \<open>m\<close>, \<open>s\<close>, \<open>g\<close> or
  \<open>y\<close>) is modelled on the sources built from the assertions \<open>^\<close> and \<open>$\<close>, the atoms
  \<open>.\<close>, a pattern character and an escaped syntax character, and the quantifiers \<open>*\<close>
  and \<open>?\<close> (greedy or lazy). Groups, classes, alternation, braces, \<open>+\<close> and the other
  escapes are \<open>NotModelled\<close>.
\<close>

datatype atom = AnyChar | Lit code_unit
datatype quantifier = Star | Question
datatype assertion = Caret | Dollar
datatype token = T_Assert assertion | T_Atom atom | T_Quant quantifier
datatype regex_term = Assertion assertion | Atom atom | Quantified atom quantifier

definition isSyntaxCharacter :: "code_unit \<Rightarrow> bool" where
  "isSyntaxCharacter c = (c \<in> set (js ''^$.*+?()[]{}|'') \<or> c = backslash)"

fun prepend :: "'a \<Rightarrow> js_error + 'a list \<Rightarrow> js_error + 'a list" where
  "prepend x (Inl e) = Inl e"
| "prepend x (Inr xs) = Inr (x # xs)"

fun tokenize :: "jsstring \<Rightarrow> js_error + token list" where
  "tokenize [] = Inr []"
| "tokenize (c # cs) =
     (if c = backslash then
        (case cs of
           [] \<Rightarrow> Inl SyntaxError
         | d # ds \<Rightarrow>
             if isSyntaxCharacter d \<or> d = cu (CHR ''/'') then prepend (T_Atom (Lit d)) (tokenize ds)
             else Inl NotModelled)
      else if c = cu (CHR ''^'') then prepend (T_Assert Caret) (tokenize cs)
      else if c = cu (CHR ''$'') then prepend (T_Assert Dollar) (tokenize cs)
      else if c = cu (CHR ''.'') then prepend (T_Atom AnyChar) (tokenize cs)
      else if c = cu (CHR ''*'') then prepend (T_Quant Star) (tokenize cs)
      else if c = cu (CHR ''?'') then prepend (T_Quant Question) (tokenize cs)
      else if isSyntaxCharacter c then Inl NotModelled
      else prepend (T_Atom (Lit c)) (tokenize cs))"

text \<open>
  A quantifier follows an atom; one with nothing to repeat (at the start, after an
  assertion or after another quantifier) is a syntax error. A \<open>?\<close> right after a
  quantifier makes it lazy, which changes which match is found first, not whether one
  exists.
\<close>

fun terms :: "token list \<Rightarrow> js_error + regex_term list" where
  "terms [] = Inr []"
| "terms (T_Quant q # ts) = Inl SyntaxError"
| "terms (T_Assert a # ts) = prepend (Assertion a) (terms ts)"
| "terms (T_Atom a # T_Quant q # T_Quant Question # ts) = prepend (Quantified a q) (terms ts)"
| "terms (T_Atom a # T_Quant q # ts) = prepend (Quantified a q) (terms ts)"
| "terms (T_Atom a # ts) = prepend (Atom a) (terms ts)"

definition parse :: "jsstring \<Rightarrow> js_error + regex_term list" where
  "parse source = (case tokenize source of Inl e \<Rightarrow> Inl e | Inr toks \<Rightarrow> terms toks)"

text \<open>
  \<open>Canonicalize\<close> of ECMAScript without the flag \<open>u\<close>: a code unit is compared by the
  upper-case form of the one-unit string when that form is one code unit, and a code
  unit from 128 on never folds into ASCII. The upper-case form of an ASCII letter is
  written out; that of a code unit from 128 on comes from the Unicode tables of the
  engine, the parameter \<open>upper\<close>.
\<close>

definition Canonicalize :: "(code_unit \<Rightarrow> jsstring) \<Rightarrow> code_unit \<Rightarrow> code_unit" where
  "Canonicalize upper ch =
     (case (if ch < 128 then [if 97 \<le> ch \<and> ch \<le> 122 then ch - 32 else ch] else upper ch) of
        [u] \<Rightarrow> if 128 \<le> ch \<and> u < 128 then ch else u
      | _ \<Rightarrow> ch)"

text \<open>
  Without the flag \<open>s\<close> the dot matches any code unit but a line terminator: line feed,
  carriage return, U+2028 and U+2029.
\<close>

definition isLineTerminator :: "code_unit \<Rightarrow> bool" where
  "isLineTerminator c = (c = 0x0A \<or> c = 0x0D \<or> c = 0x2028 \<or> c = 0x2029)"

fun atom_match :: "(code_unit \<Rightarrow> jsstring) \<Rightarrow> atom \<Rightarrow> code_unit \<Rightarrow> bool" where
  "atom_match upper AnyChar c = (\<not> isLineTerminator c)"
| "atom_match upper (Lit p) c = (Canonicalize upper p = Canonicalize upper c)"

text \<open>
  \<open>matches upper ts at_start s\<close>: the terms \<open>ts\<close> match a prefix of the rest \<open>s\<close> of the
  input; \<open>at_start\<close> tells whether \<open>s\<close> is the whole input (index 0). Without the flag
  \<open>m\<close>, \<open>^\<close> holds at index 0 only and \<open>$\<close> at the end of the input only.
\<close>

fun matches :: "(code_unit \<Rightarrow> jsstring) \<Rightarrow> regex_term list \<Rightarrow> bool \<Rightarrow> jsstring \<Rightarrow> bool" where
  "matches upper [] b s = True"
| "matches upper (Assertion Caret # ts) b s = (b \<and> matches upper ts b s)"
| "matches upper (Assertion Dollar # ts) b s = (s = [] \<and> matches upper ts b s)"
| "matches upper (Atom a # ts) b [] = False"
| "matches upper (Atom a # ts) b (c # cs) = (atom_match upper a c \<and> matches upper ts False cs)"
| "matches upper (Quantified a Question # ts) b [] = matches upper ts b []"
| "matches upper (Quantified a Question # ts) b (c # cs) =
     ((atom_match upper a c \<and> matches upper ts False cs) \<or> matches upper ts b (c # cs))"
| "matches upper (Quantified a Star # ts) b [] = matches upper ts b []"
| "matches upper (Quantified a Star # ts) b (c # cs) =
     ((atom_match upper a c \<and> matches upper (Quantified a Star # ts) False cs)
      \<or> matches upper ts b (c # cs))"

text \<open>\<open>regex.test(url)\<close> looks for a match starting at any index, from 0 on.\<close>

fun search :: "(code_unit \<Rightarrow> jsstring) \<Rightarrow> regex_term list \<Rightarrow> bool \<Rightarrow> jsstring \<Rightarrow> bool" where
  "search upper ts b [] = matches upper ts b []"
| "search upper ts b (c # cs) = (matches upper ts b (c # cs) \<or> search upper ts False cs)"

definition regex_test :: "(code_unit \<Rightarrow> jsstring) \<Rightarrow> regex_term list \<Rightarrow> regexp" where
  "regex_test upper ts input = search upper ts True input"

text \<open>
  What is the engine's own: its Unicode upper-case table (consulted from code unit 128
  on), the sources its constructor refuses because they exceed its size limits, and the
  inputs on which a \<open>test\<close> of a source runs out of the engine's resources and throws.
  The language puts no bound on either; every engine has some.
\<close>

record engine =
  upperCase :: "code_unit \<Rightarrow> jsstring"
  too_large :: "jsstring \<Rightarrow> bool"
  exhausted :: "jsstring \<Rightarrow> jsstring \<Rightarrow> bool"

text \<open>
  \<open>new RegExp(source, "i")\<close> on an engine: it throws on a source beyond its limits or with
  a syntax error, and returns the expression otherwise. The \<open>test\<close> of the object is
  given as \<open>matchesPattern\<close> sees it: \<open>false\<close> where the engine throws.
\<close>

definition RegExp_i :: "engine \<Rightarrow> regexp_ctor" where
  "RegExp_i eng source =
     (if too_large eng source then Inl SyntaxError
      else case parse source of
             Inl e \<Rightarrow> Inl e
           | Inr ts \<Rightarrow>
               Inr (\<lambda>input. \<not> exhausted eng source input \<and> regex_test (upperCase eng) ts input))"

subsection \<open>\<open>matchesPattern\<close>\<close>

text \<open>
  The \<open>try\<close> block returns the result of \<open>regex.test(url)\<close>; the \<open>catch\<close> block returns
  \<open>false\<close> for whatever was thrown.
\<close>

definition matchesPattern :: "regexp_ctor \<Rightarrow> jsstring \<Rightarrow> jsstring \<Rightarrow> bool" where
  "matchesPattern RegExp url pattern =
     (case RegExp (regexPattern pattern) of
        Inr regex \<Rightarrow> regex url
      | Inl e \<Rightarrow> False)"

subsection \<open>Rules, events and storage\<close>

record rule =
  rule_id :: int
  pattern :: jsstring
  redirect :: jsstring
  enabled :: bool

record details =
  tabId :: int
  url :: jsstring
  frameId :: int

text \<open>
  One area of \<open>chrome.storage\<close>: the two keys the extension uses (\<open>None\<close>: the key is
  absent) and whether a \<open>get\<close> on the area fails. \<open>popup.js\<close> stores a boolean under
  \<open>useSync\<close> and an array of rules under \<open>redirectRules\<close>.
\<close>

record area =
  useSync :: "bool option"
  redirectRules :: "rule list option"
  get_fails :: bool

datatype area_name = Local | Sync

record chrome_storage =
  local_area :: area
  sync_area :: area

fun area_of :: "chrome_storage \<Rightarrow> area_name \<Rightarrow> area" where
  "area_of st Local = local_area st"
| "area_of st Sync = sync_area st"

text \<open>
  What a listener does besides returning: reads and writes of the storage, and the
  navigation command \<open>chrome.tabs.update(tabId, {url})\<close>. \<open>uncaught\<close> is the error a
  callback ended with, if any.
\<close>

datatype effect =
  StorageGet area_name string
| StorageSet area_name "rule list"
| TabsUpdate int jsstring

record outcome =
  effects :: "effect list"
  uncaught :: "js_error option"

definition performed :: "effect \<Rightarrow> outcome \<Rightarrow> outcome" where
  "performed e out = out\<lparr>effects := e # effects out\<rparr>"

text \<open>
  \<open>area.get(keys, callback)\<close>: the argument the callback receives. A callback-style
  extension call that fails sets \<open>chrome.runtime.lastError\<close> and invokes the callback
  without arguments, so \<open>result\<close> is \<open>undefined\<close> (\<open>None\<close>). \<open>background.js\<close> never looks
  at \<open>lastError\<close>.
\<close>

definition storage_get :: "area \<Rightarrow> area option" where
  "storage_get a = (if get_fails a then None else Some a)"

text \<open>\<open>result.useSync !== false ? chrome.storage.sync : chrome.storage.local\<close>.\<close>

definition storageFor :: "area \<Rightarrow> area_name" where
  "storageFor result = (if useSync result \<noteq> Some False then Sync else Local)"

text \<open>
  \<open>getStorage(callback)\<close>. Reading \<open>result.useSync\<close> of an undefined \<open>result\<close> throws
  a \<open>TypeError\<close> inside the storage callback, which nothing catches. The callbacks of
  one listener run on one state of the storage: writes of other listeners between them
  are not modelled.
\<close>

definition getStorage :: "chrome_storage \<Rightarrow> (area_name \<Rightarrow> outcome) \<Rightarrow> outcome" where
  "getStorage st callback =
     (case storage_get (local_area st) of
        None \<Rightarrow> \<lparr>effects = [StorageGet Local ''useSync''], uncaught = Some TypeError\<rparr>
      | Some result \<Rightarrow> performed (StorageGet Local ''useSync'') (callback (storageFor result)))"

subsection \<open>The listener of \<open>chrome.runtime.onInstalled\<close>\<close>

text \<open>\<open>!result.redirectRules\<close> holds for an absent key; every array, also \<open>[]\<close>, is truthy.\<close>

definition onInstalled :: "chrome_storage \<Rightarrow> outcome" where
  "onInstalled st =
     getStorage st (\<lambda>storage.
       case storage_get (area_of st storage) of
         None \<Rightarrow> \<lparr>effects = [StorageGet storage ''redirectRules''], uncaught = Some TypeError\<rparr>
       | Some result \<Rightarrow>
           performed (StorageGet storage ''redirectRules'')
             (if redirectRules result = None
              then \<lparr>effects = [StorageSet storage []], uncaught = None\<rparr>
              else \<lparr>effects = [], uncaught = None\<rparr>))"

text \<open>The storage once the writes of an outcome have been applied.\<close>

fun applyWrite :: "effect \<Rightarrow> chrome_storage \<Rightarrow> chrome_storage" where
  "applyWrite (StorageSet Local rs) st = st\<lparr>local_area := (local_area st)\<lparr>redirectRules := Some rs\<rparr>\<rparr>"
| "applyWrite (StorageSet Sync rs) st = st\<lparr>sync_area := (sync_area st)\<lparr>redirectRules := Some rs\<rparr>\<rparr>"
| "applyWrite e st = st"

definition store_after :: "chrome_storage \<Rightarrow> outcome \<Rightarrow> chrome_storage" where
  "store_after st out = fold applyWrite (effects out) st"

fun isStorageSet :: "effect \<Rightarrow> bool" where
  "isStorageSet (StorageSet a rs) = True"
| "isStorageSet e = False"

fun isTabsUpdate :: "effect \<Rightarrow> bool" where
  "isTabsUpdate (TabsUpdate t u) = True"
| "isTabsUpdate e = False"

fun isRulesGet :: "effect \<Rightarrow> bool" where
  "isRulesGet (StorageGet a k) = (k = ''redirectRules'')"
| "isRulesGet e = False"

subsection \<open>The listener of \<open>chrome.webNavigation.onBeforeNavigate\<close>\<close>

text \<open>
  The \<open>for\<close> loop over the rules: \<open>continue\<close> on a rule whose redirect is the URL being
  loaded, \<open>break\<close> after the first \<open>chrome.tabs.update\<close>.
\<close>

fun evaluate :: "regexp_ctor \<Rightarrow> details \<Rightarrow> rule list \<Rightarrow> effect list" where
  "evaluate RegExp d [] = []"
| "evaluate RegExp d (rule # rules) =
     (if enabled rule \<and> matchesPattern RegExp (url d) (pattern rule) then
        (if url d = redirect rule then evaluate RegExp d rules
         else [TabsUpdate (tabId d) (redirect rule)])
      else evaluate RegExp d rules)"

text \<open>\<open>result.redirectRules || []\<close>.\<close>

definition rulesOf :: "area \<Rightarrow> rule list" where
  "rulesOf result = (case redirectRules result of None \<Rightarrow> [] | Some rules \<Rightarrow> rules)"

definition onBeforeNavigate :: "regexp_ctor \<Rightarrow> chrome_storage \<Rightarrow> details \<Rightarrow> outcome" where
  "onBeforeNavigate RegExp st d =
     (if frameId d \<noteq> 0 then \<lparr>effects = [], uncaught = None\<rparr>
      else getStorage st (\<lambda>storage.
        case storage_get (area_of st storage) of
          None \<Rightarrow> \<lparr>effects = [StorageGet storage ''redirectRules''], uncaught = Some TypeError\<rparr>
        | Some result \<Rightarrow>
            performed (StorageGet storage ''redirectRules'')
              \<lparr>effects = evaluate RegExp d (rulesOf result), uncaught = None\<rparr>))"

subsection \<open>What a pattern compiles to\<close>

text \<open>
  Used in the proofs: the piece of source, the tokens and the term that one pattern
  character gives rise to, and the whole compiled expression.
\<close>

definition sourceOf :: "code_unit \<Rightarrow> jsstring" where
  "sourceOf c =
     (if c = cu (CHR ''*'') then js ''.*'' else if isSpecial c then [backslash, c] else [c])"

definition tokensOf :: "code_unit \<Rightarrow> token list" where
  "tokensOf c =
     (if c = cu (CHR ''*'') then [T_Atom AnyChar, T_Quant Star] else [T_Atom (Lit c)])"

definition termOf :: "code_unit \<Rightarrow> regex_term" where
  "termOf c = (if c = cu (CHR ''*'') then Quantified AnyChar Star else Atom (Lit c))"

definition compiled :: "jsstring \<Rightarrow> regex_term list" where
  "compiled p =
     Assertion Caret # map termOf p @
       (if p \<noteq> [] \<and> last p = cu (CHR ''*'') then [Assertion Dollar]
        else [Quantified (Lit (cu (CHR ''/''))) Question, Assertion Dollar])"

fun noQuant :: "token list \<Rightarrow> bool" where
  "noQuant (T_Quant q # ts) = False"
| "noQuant ts = True"

text \<open>
  Equality of strings up to the engine's case folding, and up to the case of the ASCII
  letters only.
\<close>

definition ci_eq :: "(code_unit \<Rightarrow> jsstring) \<Rightarrow> jsstring \<Rightarrow> jsstring \<Rightarrow> bool" where
  "ci_eq upper s t = (map (Canonicalize upper) s = map (Canonicalize upper) t)"

definition isASCII :: "code_unit \<Rightarrow> bool" where
  "isASCII c = (c < 128)"

definition asciiUpper :: "code_unit \<Rightarrow> code_unit" where
  "asciiUpper c = (if 97 \<le> c \<and> c \<le> 122 then c - 32 else c)"

definition ascii_ci_eq :: "jsstring \<Rightarrow> jsstring \<Rightarrow> bool" where
  "ascii_ci_eq s t = (map asciiUpper s = map asciiUpper t)"

subsection \<open>Example data\<close>

text \<open>
  An engine for the examples: it refuses a source of more than 32767 code units and
  never runs out of resources in a \<open>test\<close>. Its upper-case table is that of Unicode
  on Latin-1 (U+00B5 to U+039C, U+00DF to \<open>SS\<close>, U+00E0-U+00FE without U+00F7 to
  U+00C0-U+00DE, U+00FF to U+0178) and the identity beyond. The limits of a real engine
  differ; the theorems hold for every engine.
\<close>

definition example_engine :: engine where
  "example_engine =
     \<lparr>upperCase = (\<lambda>ch. if 224 \<le> ch \<and> ch \<le> 254 \<and> ch \<noteq> 247 then [ch - 32]
                        else if ch = 181 then [924]
                        else if ch = 223 then [83, 83]
                        else if ch = 255 then [376]
                        else [ch]),
      too_large = (\<lambda>source. 32767 < length source),
      exhausted = (\<lambda>source input. False)\<rparr>"

text \<open>The URL \<open>https://a/aaa...\<close> with 32768 letters \<open>a\<close>, also used as a pattern.\<close>

definition long_url :: jsstring where
  "long_url = js ''https://a/'' @ replicate 32768 (cu (CHR ''a''))"

definition rule_a :: rule where
  "rule_a = \<lparr>rule_id = 2, pattern = js ''https://a.com'', redirect = js ''https://b.com'',
     enabled = True\<rparr>"

definition rule_all_off :: rule where
  "rule_all_off = \<lparr>rule_id = 1, pattern = js ''*'', redirect = js ''https://x.com'',
     enabled = False\<rparr>"

definition rule_all :: rule where
  "rule_all = \<lparr>rule_id = 3, pattern = js ''*'', redirect = js ''https://x.com'',
     enabled = True\<rparr>"

definition rule_loop :: rule where
  "rule_loop = \<lparr>rule_id = 4, pattern = js ''https://example.com/*'',
     redirect = js ''https://example.com/new'', enabled = True\<rparr>"

definition rule_bad :: rule where
  "rule_bad = \<lparr>rule_id = 5, pattern = js ''bad'', redirect = js ''https://y.com'',
     enabled = True\<rparr>"

definition nav_a :: details where
  "nav_a = \<lparr>tabId = 7, url = js ''https://a.com'', frameId = 0\<rparr>"

definition nav_new :: details where
  "nav_new = \<lparr>tabId = 7, url = js ''https://example.com/new'', frameId = 0\<rparr>"

definition nav_frame :: details where
  "nav_frame = \<lparr>tabId = 7, url = js ''https://a.com'', frameId = 3\<rparr>"

text \<open>A constructor that rejects the source of the pattern \<open>bad\<close>.\<close>

definition RegExp_rejecting :: regexp_ctor where
  "RegExp_rejecting source =
     (if source = regexPattern (js ''bad'') then Inl SyntaxError
      else RegExp_i example_engine source)"

definition area_fresh :: area where
  "area_fresh = \<lparr>useSync = None, redirectRules = None, get_fails = False\<rparr>"

definition store_fresh :: chrome_storage where
  "store_fresh = \<lparr>local_area = area_fresh, sync_area = area_fresh\<rparr>"

definition store_empty_list :: chrome_storage where
  "store_empty_list =
     \<lparr>local_area = area_fresh, sync_area = area_fresh\<lparr>redirectRules := Some []\<rparr>\<rparr>"

definition store_two_rules :: chrome_storage where
  "store_two_rules =
     \<lparr>local_area = area_fresh, sync_area = area_fresh\<lparr>redirectRules := Some [rule_a, rule_all]\<rparr>\<rparr>"

definition store_failing :: chrome_storage where
  "store_failing =
     \<lparr>local_area = area_fresh,
      sync_area = area_fresh\<lparr>redirectRules := Some [rule_a], get_fails := True\<rparr>\<rparr>"

section \<open>Compilation of a pattern\<close>

lemma special_chars:
  "isSpecial c \<Longrightarrow> c \<noteq> cu (CHR ''*'')"
  "isSpecial c \<Longrightarrow> isSyntaxCharacter c"
  "isSyntaxCharacter c \<Longrightarrow> c \<noteq> cu (CHR ''*'') \<Longrightarrow> isSpecial c"
  by (auto simp: isSpecial_def isSyntaxCharacter_def backslash_def js_def cu_def)

lemma sourceOf_simps:
  "c = cu (CHR ''*'') \<Longrightarrow> sourceOf c = js ''.*''"
  "c \<noteq> cu (CHR ''*'') \<Longrightarrow> isSpecial c \<Longrightarrow> sourceOf c = [backslash, c]"
  "c \<noteq> cu (CHR ''*'') \<Longrightarrow> \<not> isSpecial c \<Longrightarrow> sourceOf c = [c]"
  by (simp_all add: sourceOf_def)

lemma tokensOf_simps:
  "c = cu (CHR ''*'') \<Longrightarrow> tokensOf c = [T_Atom AnyChar, T_Quant Star]"
  "c \<noteq> cu (CHR ''*'') \<Longrightarrow> tokensOf c = [T_Atom (Lit c)]"
  by (simp_all add: tokensOf_def)

lemma termOf_simps:
  "c = cu (CHR ''*'') \<Longrightarrow> termOf c = Quantified AnyChar Star"
  "c \<noteq> cu (CHR ''*'') \<Longrightarrow> termOf c = Atom (Lit c)"
  by (simp_all add: termOf_def)

lemma compiled_simps:
  "p \<noteq> [] \<and> last p = cu (CHR ''*'') \<Longrightarrow>
     compiled p = Assertion Caret # map termOf p @ [Assertion Dollar]"
  "\<not> (p \<noteq> [] \<and> last p = cu (CHR ''*'')) \<Longrightarrow>
     compiled p = Assertion Caret # map termOf p
       @ [Quantified (Lit (cu (CHR ''/''))) Question, Assertion Dollar]"
  by (simp_all add: compiled_def)

lemma replaceStar_append: "replaceStar (s @ t) = replaceStar s @ replaceStar t"
  by (simp add: replaceStar_def)

lemma replaceStar_sourceOf: "replaceStar (if isSpecial c then [backslash, c] else [c]) = sourceOf c"
  by (auto simp: replaceStar_def sourceOf_def backslash_def cu_def isSpecial_def js_def)

lemma body_sourceOf: "replaceStar (escapeSpecial p) = concat (map sourceOf p)"
proof (induction p)
  case Nil
  show ?case by (simp add: replaceStar_def escapeSpecial_def)
next
  case (Cons c p)
  have "escapeSpecial (c # p) = (if isSpecial c then [backslash, c] else [c]) @ escapeSpecial p"
    by (simp add: escapeSpecial_def)
  then show ?case
    using Cons by (simp only: replaceStar_append replaceStar_sourceOf) simp
qed

lemma endsWith_last: "endsWith s t \<Longrightarrow> t \<noteq> [] \<Longrightarrow> last s = last t"
proof -
  assume a: "endsWith s t" and t: "t \<noteq> []"
  then have "drop (length s - length t) s = t" and "length t \<le> length s"
    by (simp_all add: endsWith_def)
  then have "s = take (length s - length t) s @ t"
    by (metis append_take_drop_id)
  then show ?thesis using t by (metis last_appendR)
qed

lemma last_sourceOf: "c \<noteq> cu (CHR ''*'') \<Longrightarrow> last (sourceOf c) = c"
  by (simp add: sourceOf_def)

lemma sourceOf_not_Nil: "sourceOf c \<noteq> []"
  by (simp add: sourceOf_def js_def cu_def)

lemma length_sourceOf: "length (sourceOf c) \<le> 2"
  by (simp add: sourceOf_def js_def cu_def)

lemma endsWith_body:
  "endsWith (concat (map sourceOf p)) (js ''.*'') = (p \<noteq> [] \<and> last p = cu (CHR ''*''))"
proof (cases p rule: rev_cases)
  case Nil
  then show ?thesis by (simp add: endsWith_def js_def cu_def)
next
  case (snoc q c)
  show ?thesis
  proof (cases "c = cu (CHR ''*'')")
    case True
    then show ?thesis using snoc by (simp add: endsWith_def sourceOf_def js_def cu_def)
  next
    case False
    have "last (concat (map sourceOf p)) = c"
      using snoc False by (simp add: sourceOf_not_Nil last_sourceOf)
    then have "\<not> endsWith (concat (map sourceOf p)) (js ''.*'')"
      using False endsWith_last [of "concat (map sourceOf p)" "js ''.*''"] by (auto simp: js_def cu_def)
    then show ?thesis using snoc False by simp
  qed
qed

lemma regexPattern_source:
  "regexPattern p =
     cu (CHR ''^'') # concat (map sourceOf p)
       @ (if p \<noteq> [] \<and> last p = cu (CHR ''*'') then js ''$'' else js ''/?$'')"
  by (simp add: regexPattern_def Let_def body_sourceOf endsWith_body) (simp add: js_def cu_def)

lemma tokenize_body:
  "tokenize rest = Inr ts \<Longrightarrow>
   tokenize (concat (map sourceOf p) @ rest) = Inr (concat (map tokensOf p) @ ts)"
proof (induction p)
  case Nil
  then show ?case by simp
next
  case (Cons c p)
  then have IH: "tokenize (concat (map sourceOf p) @ rest) = Inr (concat (map tokensOf p) @ ts)"
    by simp
  consider (star) "c = cu (CHR ''*'')" | (special) "c \<noteq> cu (CHR ''*'')" "isSpecial c"
    | (plain) "c \<noteq> cu (CHR ''*'')" "\<not> isSpecial c"
    by blast
  then show ?case
  proof cases
    case star
    then show ?thesis using IH by (simp add: sourceOf_simps tokensOf_simps backslash_def js_def cu_def)
  next
    case special
    then show ?thesis using IH by (simp add: sourceOf_simps tokensOf_simps special_chars(2))
  next
    case plain
    then have "\<not> isSyntaxCharacter c" using special_chars(3) by blast
    moreover have "c \<noteq> backslash" "c \<noteq> cu (CHR ''^'')" "c \<noteq> cu (CHR ''$'')"
      "c \<noteq> cu (CHR ''.'')" "c \<noteq> cu (CHR ''?'')"
      using plain(2) by (auto simp: isSpecial_def js_def cu_def)
    ultimately show ?thesis using IH plain by (simp add: sourceOf_simps tokensOf_simps)
  qed
qed

lemma noQuant_body: "noQuant ts \<Longrightarrow> noQuant (concat (map tokensOf p) @ ts)"
  by (cases p) (simp_all add: tokensOf_def)

lemma terms_atom: "noQuant ts \<Longrightarrow> terms (T_Atom a # ts) = prepend (Atom a) (terms ts)"
  by (cases ts rule: noQuant.cases) simp_all

lemma terms_quantified:
  "noQuant ts \<Longrightarrow> terms (T_Atom a # T_Quant q # ts) = prepend (Quantified a q) (terms ts)"
  by (cases ts rule: noQuant.cases) simp_all

lemma terms_body:
  "noQuant ts \<Longrightarrow> terms ts = Inr rs \<Longrightarrow>
   terms (concat (map tokensOf p) @ ts) = Inr (map termOf p @ rs)"
proof (induction p)
  case Nil
  then show ?case by simp
next
  case (Cons c p)
  have nq: "noQuant (concat (map tokensOf p) @ ts)"
    using Cons.prems(1) by (rule noQuant_body)
  have IH: "terms (concat (map tokensOf p) @ ts) = Inr (map termOf p @ rs)"
    using Cons by simp
  show ?case
    using IH
    by (cases "c = cu (CHR ''*'')")
      (simp_all add: tokensOf_simps termOf_simps terms_atom [OF nq] terms_quantified [OF nq])
qed

lemma tokenize_tail_slash:
  "tokenize (js ''/?$'') = Inr [T_Atom (Lit (cu (CHR ''/''))), T_Quant Question, T_Assert Dollar]"
  by (simp add: backslash_def isSyntaxCharacter_def js_def cu_def)

lemma tokenize_tail_end: "tokenize (js ''$'') = Inr [T_Assert Dollar]"
  by (simp add: backslash_def js_def cu_def)

lemma parse_regexPattern: "parse (regexPattern p) = Inr (compiled p)"
proof (cases "p \<noteq> [] \<and> last p = cu (CHR ''*'')")
  case True
  then have src: "regexPattern p = cu (CHR ''^'') # concat (map sourceOf p) @ js ''$''"
    by (auto simp: regexPattern_source)
  have "tokenize (regexPattern p) = Inr (T_Assert Caret # concat (map tokensOf p) @ [T_Assert Dollar])"
    unfolding src using tokenize_body [OF tokenize_tail_end, of p] by (simp add: backslash_def cu_def)
  moreover have "terms (concat (map tokensOf p) @ [T_Assert Dollar]) = Inr (map termOf p @ [Assertion Dollar])"
    by (rule terms_body) simp_all
  ultimately show ?thesis by (simp add: parse_def compiled_simps(1) [OF True])
next
  case False
  then have src: "regexPattern p = cu (CHR ''^'') # concat (map sourceOf p) @ js ''/?$''"
    by (auto simp: regexPattern_source)
  have "tokenize (regexPattern p) =
      Inr (T_Assert Caret # concat (map tokensOf p)
        @ [T_Atom (Lit (cu (CHR ''/''))), T_Quant Question, T_Assert Dollar])"
    unfolding src using tokenize_body [OF tokenize_tail_slash, of p] by (simp add: backslash_def cu_def)
  moreover have "terms (concat (map tokensOf p)
        @ [T_Atom (Lit (cu (CHR ''/''))), T_Quant Question, T_Assert Dollar])
      = Inr (map termOf p @ [Quantified (Lit (cu (CHR ''/''))) Question, Assertion Dollar])"
    by (rule terms_body) simp_all
  ultimately show ?thesis by (simp add: parse_def compiled_simps(2) [OF False])
qed

lemma RegExp_i_regexPattern:
  "RegExp_i eng (regexPattern p) =
     (if too_large eng (regexPattern p) then Inl SyntaxError
      else Inr (\<lambda>input. \<not> exhausted eng (regexPattern p) input
                  \<and> regex_test (upperCase eng) (compiled p) input))"
  by (simp add: RegExp_i_def parse_regexPattern)

lemma matchesPattern_compiled:
  "matchesPattern (RegExp_i eng) u p =
     (\<not> too_large eng (regexPattern p) \<and> \<not> exhausted eng (regexPattern p) u
      \<and> regex_test (upperCase eng) (compiled p) u)"
  by (simp add: matchesPattern_def RegExp_i_regexPattern)

lemma length_regexPattern: "length p < length (regexPattern p)"
proof -
  have "length p \<le> length (concat (map sourceOf p))"
  proof (induction p)
    case Nil
    show ?case by simp
  next
    case (Cons c p)
    have "1 \<le> length (sourceOf c)"
      using sourceOf_not_Nil [of c] by (cases "sourceOf c") simp_all
    then show ?case using Cons by simp
  qed
  then show ?thesis by (simp add: regexPattern_source)
qed

section \<open>Matching\<close>

lemma Canonicalize_ascii_value: "c < 128 \<Longrightarrow> Canonicalize upper c = asciiUpper c"
  by (simp add: Canonicalize_def asciiUpper_def)

lemma Canonicalize_beyond: "128 \<le> c \<Longrightarrow> 128 \<le> Canonicalize upper c"
  by (auto simp: Canonicalize_def split: list.splits)

lemma asciiUpper_less: "c < 128 \<Longrightarrow> asciiUpper c < 128"
  by (auto simp: asciiUpper_def)

lemma asciiUpper_beyond: "128 \<le> c \<Longrightarrow> asciiUpper c = c"
  by (simp add: asciiUpper_def)

lemma Canonicalize_ascii:
  "isASCII c \<Longrightarrow> (Canonicalize upper c = Canonicalize upper p) = (asciiUpper c = asciiUpper p)"
proof (cases "p < 128")
  case True
  assume "isASCII c"
  then show ?thesis using True by (simp add: isASCII_def Canonicalize_ascii_value)
next
  case False
  assume "isASCII c"
  then have c: "Canonicalize upper c < 128" "asciiUpper c < 128"
    by (simp_all add: isASCII_def Canonicalize_ascii_value asciiUpper_less)
  have "128 \<le> Canonicalize upper p" "128 \<le> asciiUpper p"
    using False by (simp_all add: Canonicalize_beyond asciiUpper_beyond)
  then show ?thesis using c by auto
qed

lemma Canonicalize_slash:
  "(Canonicalize upper c = Canonicalize upper (cu (CHR ''/''))) = (c = cu (CHR ''/''))"
proof -
  have "isASCII (cu (CHR ''/''))" by (simp add: isASCII_def cu_def)
  from Canonicalize_ascii [OF this, of upper c]
  have "(Canonicalize upper c = Canonicalize upper (cu (CHR ''/'')))
      = (asciiUpper c = asciiUpper (cu (CHR ''/'')))"
    by auto
  also have "\<dots> = (c = cu (CHR ''/''))"
    by (auto simp: asciiUpper_def cu_def)
  finally show ?thesis .
qed

lemma Canonicalize_slash':
  "(Canonicalize upper (cu (CHR ''/'')) = Canonicalize upper c) = (c = cu (CHR ''/''))"
  using Canonicalize_slash [of upper c] by auto

lemma Canonicalize_star:
  "(Canonicalize upper c = Canonicalize upper (cu (CHR ''*''))) = (c = cu (CHR ''*''))"
proof -
  have "isASCII (cu (CHR ''*''))" by (simp add: isASCII_def cu_def)
  from Canonicalize_ascii [OF this, of upper c]
  have "(Canonicalize upper c = Canonicalize upper (cu (CHR ''*'')))
      = (asciiUpper c = asciiUpper (cu (CHR ''*'')))"
    by auto
  also have "\<dots> = (c = cu (CHR ''*''))"
    by (auto simp: asciiUpper_def cu_def)
  finally show ?thesis .
qed

lemma ci_eq_ascii: "list_all isASCII s \<Longrightarrow> ci_eq upper s t = ascii_ci_eq s t"
proof (induction s arbitrary: t)
  case Nil
  show ?case by (simp add: ci_eq_def ascii_ci_eq_def)
next
  case (Cons c s)
  then have IH: "\<And>t. ci_eq upper s t = ascii_ci_eq s t" and c: "isASCII c" by simp_all
  show ?case
  proof (cases t)
    case Nil
    then show ?thesis by (simp add: ci_eq_def ascii_ci_eq_def)
  next
    case (Cons p t')
    have "ci_eq upper (c # s) (p # t')
        = (Canonicalize upper c = Canonicalize upper p \<and> ci_eq upper s t')"
      by (simp add: ci_eq_def)
    also have "\<dots> = (asciiUpper c = asciiUpper p \<and> ascii_ci_eq s t')"
      by (simp add: Canonicalize_ascii [OF c] IH)
    also have "\<dots> = ascii_ci_eq (c # s) (p # t')"
      by (simp add: ascii_ci_eq_def)
    finally show ?thesis using Cons by simp
  qed
qed

lemma search_caret: "search upper (Assertion Caret # ts) False s = False"
  by (induction s) simp_all

lemma regex_test_caret: "regex_test upper (Assertion Caret # ts) s = matches upper ts True s"
  by (cases s) (simp_all add: regex_test_def search_caret)

lemma matches_slash_end:
  "matches upper [Quantified (Lit (cu (CHR ''/''))) Question, Assertion Dollar] b s
     = (s = [] \<or> s = [cu (CHR ''/'')])"
  by (cases s) (auto simp: Canonicalize_slash')

lemma ci_eq_Nil: "ci_eq upper s [] = (s = [])"
  by (simp add: ci_eq_def)

lemma ci_eq_slash: "ci_eq upper s [cu (CHR ''/'')] = (s = [cu (CHR ''/'')])"
  by (cases s) (auto simp: ci_eq_def Canonicalize_slash)

lemma ci_eq_Cons:
  "ci_eq upper s (p # t) =
     (\<exists>c cs. s = c # cs \<and> Canonicalize upper c = Canonicalize upper p \<and> ci_eq upper cs t)"
  by (cases s) (auto simp: ci_eq_def)

lemma matches_literal:
  "matches upper (map (\<lambda>c. Atom (Lit c)) p
       @ [Quantified (Lit (cu (CHR ''/''))) Question, Assertion Dollar]) b s
     = (ci_eq upper s p \<or> ci_eq upper s (p @ [cu (CHR ''/'')]))"
proof (induction p arbitrary: s b)
  case Nil
  show ?case by (simp add: matches_slash_end ci_eq_Nil ci_eq_slash)
next
  case (Cons c p)
  show ?case
  proof (cases s)
    case Nil
    then show ?thesis by (simp add: ci_eq_def)
  next
    case (Cons d ds)
    then show ?thesis using Cons.IH [of False ds] by (auto simp: ci_eq_def)
  qed
qed

lemma map_termOf_plain:
  "cu (CHR ''*'') \<notin> set p \<Longrightarrow> map termOf p = map (\<lambda>c. Atom (Lit c)) p"
  by (induction p) (auto simp: termOf_def)

lemma compiled_plain:
  "cu (CHR ''*'') \<notin> set p \<Longrightarrow>
   compiled p = Assertion Caret # map (\<lambda>c. Atom (Lit c)) p
                  @ [Quantified (Lit (cu (CHR ''/''))) Question, Assertion Dollar]"
proof -
  assume a: "cu (CHR ''*'') \<notin> set p"
  then have "\<not> (p \<noteq> [] \<and> last p = cu (CHR ''*''))"
    using last_in_set by metis
  then show ?thesis using a by (simp add: compiled_simps(2) map_termOf_plain)
qed

lemma regex_test_plain:
  "cu (CHR ''*'') \<notin> set p \<Longrightarrow>
   regex_test upper (compiled p) u = (ci_eq upper u p \<or> ci_eq upper u (p @ js ''/''))"
  by (simp add: compiled_plain regex_test_caret matches_literal js_def)

lemma matches_star_zero: "matches upper ts b s \<Longrightarrow> matches upper (Quantified a Star # ts) b s"
  by (cases s) simp_all

lemma matches_dotstar_end:
  "list_all (\<lambda>c. \<not> isLineTerminator c) s \<Longrightarrow>
   matches upper [Quantified AnyChar Star, Assertion Dollar] b s"
  by (induction s arbitrary: b) simp_all

lemma matches_prefix:
  "ci_eq upper u pre \<Longrightarrow> list_all (\<lambda>c. \<not> isLineTerminator c) rest \<Longrightarrow>
   matches upper (map termOf pre @ [Quantified AnyChar Star, Assertion Dollar]) b (u @ rest)"
proof (induction pre arbitrary: u b)
  case Nil
  then show ?case by (simp add: ci_eq_Nil matches_dotstar_end)
next
  case (Cons c pre)
  from Cons.prems(1) obtain d ds where u: "u = d # ds"
    and d: "Canonicalize upper d = Canonicalize upper c" and ds: "ci_eq upper ds pre"
    by (auto simp: ci_eq_Cons)
  have IH: "matches upper (map termOf pre @ [Quantified AnyChar Star, Assertion Dollar]) False (ds @ rest)"
    using Cons.IH [OF ds Cons.prems(2)] .
  show ?case
  proof (cases "c = cu (CHR ''*'')")
    case True
    then have "d = cu (CHR ''*'')" using d Canonicalize_star [of upper d] by simp
    moreover have "\<not> isLineTerminator (cu (CHR ''*''))" by (simp add: isLineTerminator_def cu_def)
    ultimately show ?thesis
      using True u matches_star_zero [OF IH, of AnyChar] by (simp add: termOf_simps)
  next
    case False
    then show ?thesis using u d IH by (simp add: termOf_simps)
  qed
qed

lemma regex_test_prefix:
  "ci_eq upper u pre \<Longrightarrow> list_all (\<lambda>c. \<not> isLineTerminator c) rest \<Longrightarrow>
   regex_test upper (compiled (pre @ js ''*'')) (u @ rest)"
proof -
  assume a: "ci_eq upper u pre" "list_all (\<lambda>c. \<not> isLineTerminator c) rest"
  have "compiled (pre @ js ''*'')
      = Assertion Caret # map termOf pre @ [Quantified AnyChar Star, Assertion Dollar]"
    by (simp add: compiled_def termOf_def js_def)
  then show ?thesis using matches_prefix [OF a] by (simp add: regex_test_caret)
qed

section \<open>Effects of the listeners\<close>

lemma evaluate_find:
  "evaluate RegExp d rules =
     (case find (\<lambda>r. enabled r \<and> matchesPattern RegExp (url d) (pattern r) \<and> redirect r \<noteq> url d) rules of
        None \<Rightarrow> []
      | Some r \<Rightarrow> [TabsUpdate (tabId d) (redirect r)])"
  by (induction rules) auto

lemma evaluate_skip:
  "\<not> (enabled r \<and> matchesPattern RegExp (url d) (pattern r) \<and> redirect r \<noteq> url d) \<Longrightarrow>
   evaluate RegExp d (pre @ r # post) = evaluate RegExp d (pre @ post)"
  by (induction pre) auto

lemma evaluate_length: "length (evaluate RegExp d rules) \<le> 1"
  by (induction rules) auto

lemma rules_get_evaluate: "filter isRulesGet (evaluate RegExp d rules) = []"
  by (induction rules) auto

lemma evaluate_updates: "filter isTabsUpdate (evaluate RegExp d rules) = evaluate RegExp d rules"
  by (induction rules) auto

lemma commands_onBeforeNavigate:
  "filter isTabsUpdate (effects (onBeforeNavigate RegExp st d)) =
     (if frameId d = 0 \<and> \<not> get_fails (local_area st)
         \<and> \<not> get_fails (area_of st (storageFor (local_area st)))
      then evaluate RegExp d (rulesOf (area_of st (storageFor (local_area st))))
      else [])"
  by (simp add: onBeforeNavigate_def getStorage_def storage_get_def performed_def evaluate_updates)

lemma writes_onInstalled:
  "filter isStorageSet (effects (onInstalled st)) =
     (if \<not> get_fails (local_area st) \<and> \<not> get_fails (area_of st (storageFor (local_area st)))
         \<and> redirectRules (area_of st (storageFor (local_area st))) = None
      then [StorageSet (storageFor (local_area st)) []]
      else [])"
  by (simp add: onInstalled_def getStorage_def storage_get_def performed_def)

lemma store_after_onInstalled:
  "store_after st (onInstalled st) =
     (if \<not> get_fails (local_area st) \<and> \<not> get_fails (area_of st (storageFor (local_area st)))
         \<and> redirectRules (area_of st (storageFor (local_area st))) = None
      then applyWrite (StorageSet (storageFor (local_area st)) []) st
      else st)"
  by (simp add: store_after_def onInstalled_def getStorage_def storage_get_def performed_def)

lemma storageFor_applyWrite:
  "storageFor (local_area (applyWrite (StorageSet n rs) st)) = storageFor (local_area st)"
  by (cases n) (simp_all add: storageFor_def)

lemma get_fails_applyWrite:
  "get_fails (area_of (applyWrite (StorageSet n rs) st) m) = get_fails (area_of st m)"
  by (cases n; cases m) simp_all

lemma redirectRules_applyWrite:
  "redirectRules (area_of (applyWrite (StorageSet n rs) st) n) = Some rs"
  by (cases n) simp_all

lemma onInstalled_twice:
  "store_after (store_after st (onInstalled st)) (onInstalled (store_after st (onInstalled st)))
     = store_after st (onInstalled st)"
  by (simp add: store_after_onInstalled [of "applyWrite (StorageSet (storageFor (local_area st)) []) st"]
      store_after_onInstalled [of st] storageFor_applyWrite redirectRules_applyWrite)

lemma onBeforeNavigate_absent:
  "redirectRules (area_of st (storageFor (local_area st))) = None \<Longrightarrow>
   onBeforeNavigate RegExp st d =
     onBeforeNavigate RegExp (applyWrite (StorageSet (storageFor (local_area st)) []) st) d"
  apply (cases "storageFor (local_area st)")
  apply (simp_all add: onBeforeNavigate_def getStorage_def storage_get_def performed_def rulesOf_def storageFor_def split: if_splits)
  done

lemma evaluate_never_same_url: "TabsUpdate t (url d) \<notin> set (evaluate RegExp d rules)"
  by (induction rules) auto

section \<open>Facts about the example data\<close>

text \<open>The definitions that the examples unfold.\<close>

lemmas example_defs =
  matchesPattern_def RegExp_i_def parse_def regexPattern_def replaceStar_def escapeSpecial_def
  isSpecial_def isSyntaxCharacter_def endsWith_def js_def cu_def backslash_def example_engine_def
  regex_test_def Canonicalize_def isLineTerminator_def
  rule_a_def rule_all_def rule_all_off_def rule_loop_def rule_bad_def
  nav_a_def nav_new_def nav_frame_def RegExp_rejecting_def
  area_fresh_def store_fresh_def store_empty_list_def store_two_rules_def store_failing_def
  onBeforeNavigate_def onInstalled_def getStorage_def storage_get_def storageFor_def
  performed_def rulesOf_def store_after_def

lemma long_url_facts:
  "cu (CHR ''*'') \<notin> set long_url" "list_all isASCII long_url"
  "too_large example_engine (regexPattern long_url)"
  "too_large example_engine (regexPattern (long_url @ js ''*''))"
proof -
  show "cu (CHR ''*'') \<notin> set long_url"
    by (auto simp: long_url_def js_def cu_def)
  show "list_all isASCII long_url"
    by (simp add: long_url_def js_def cu_def isASCII_def list_all_iff)
  have "length long_url = 32778"
    by (simp add: long_url_def js_def)
  then show "too_large example_engine (regexPattern long_url)"
    using length_regexPattern [of long_url] by (simp add: example_engine_def)
  have "length (long_url @ js ''*'') = 32779"
    by (simp add: long_url_def js_def)
  then show "too_large example_engine (regexPattern (long_url @ js ''*''))"
    using length_regexPattern [of "long_url @ js ''*''"] by (simp add: example_engine_def)
qed

section \<open>Properties of the navigation listener\<close>

text \<open>
  C1. The loop issues the redirect of the first rule in stored order that is enabled,
  matches the URL and does not redirect to the URL itself, and nothing when there is no
  such rule. A navigation event therefore leads to at most one \<open>chrome.tabs.update\<close>,
  which is the loop's result on the rules read from the storage. Of two enabled,
  matching, non-looping rules \<open>[r1, r2]\<close> only the redirect of \<open>r1\<close> is issued.
\<close>

theorem first_match_wins:
  "evaluate RegExp d rules =
     (case find (\<lambda>r. enabled r \<and> matchesPattern RegExp (url d) (pattern r) \<and> redirect r \<noteq> url d) rules of
        None \<Rightarrow> []
      | Some r \<Rightarrow> [TabsUpdate (tabId d) (redirect r)])
   \<and> length (filter isTabsUpdate (effects (onBeforeNavigate RegExp st d))) \<le> 1
   \<and> filter isTabsUpdate (effects (onBeforeNavigate RegExp st d)) =
       (if frameId d = 0 \<and> \<not> get_fails (local_area st)
           \<and> \<not> get_fails (area_of st (storageFor (local_area st)))
        then evaluate RegExp d (rulesOf (area_of st (storageFor (local_area st))))
        else [])
   \<and> (enabled r1 \<and> enabled r2
        \<and> matchesPattern RegExp (url d) (pattern r1) \<and> matchesPattern RegExp (url d) (pattern r2)
        \<and> redirect r1 \<noteq> url d \<and> redirect r2 \<noteq> url d
       \<longrightarrow> evaluate RegExp d [r1, r2] = [TabsUpdate (tabId d) (redirect r1)])"
proof -
  have "length (filter isTabsUpdate (effects (onBeforeNavigate RegExp st d))) \<le> 1"
    unfolding commands_onBeforeNavigate
    using evaluate_length [of RegExp d "rulesOf (area_of st (storageFor (local_area st)))"]
    by simp
  then show ?thesis
    using evaluate_find [of RegExp d rules] commands_onBeforeNavigate [of RegExp st d] by simp
qed

text \<open>C1 on two rules that both match \<open>https://a.com\<close>.\<close>

theorem first_match_wins_witness:
  "enabled rule_a \<and> enabled rule_all
   \<and> matchesPattern (RegExp_i example_engine) (url nav_a) (pattern rule_a)
   \<and> matchesPattern (RegExp_i example_engine) (url nav_a) (pattern rule_all)
   \<and> redirect rule_a \<noteq> url nav_a \<and> redirect rule_all \<noteq> url nav_a
   \<and> evaluate (RegExp_i example_engine) nav_a [rule_a, rule_all] = [TabsUpdate (tabId nav_a) (redirect rule_a)]
   \<and> filter isTabsUpdate (effects (onBeforeNavigate (RegExp_i example_engine) store_two_rules nav_a))
       = [TabsUpdate 7 (js ''https://b.com'')]"
proof -
  have h: "enabled rule_a \<and> enabled rule_all
      \<and> matchesPattern (RegExp_i example_engine) (url nav_a) (pattern rule_a)
      \<and> matchesPattern (RegExp_i example_engine) (url nav_a) (pattern rule_all)
      \<and> redirect rule_a \<noteq> url nav_a \<and> redirect rule_all \<noteq> url nav_a"
    by (simp add: example_defs)
  have c: "evaluate (RegExp_i example_engine) nav_a [rule_a, rule_all] = [TabsUpdate (tabId nav_a) (redirect rule_a)]"
    using first_match_wins [where RegExp = "RegExp_i example_engine" and d = nav_a and ?r1.0 = rule_a and ?r2.0 = rule_all] h
    by blast
  have e: "filter isTabsUpdate (effects (onBeforeNavigate (RegExp_i example_engine) store_two_rules nav_a))
       = [TabsUpdate 7 (js ''https://b.com'')]"
    by (simp add: example_defs)
  show ?thesis using h c e by blast
qed

text \<open>
  C4. An enabled rule that matches the URL and redirects to that very URL is passed
  over: the loop gives the same result with and without it, wherever it stands, no
  command ever targets its redirect, and an enabled, matching, non-looping rule after it
  is selected.
\<close>

theorem loop_rule_skipped:
  "enabled r \<Longrightarrow> matchesPattern RegExp (url d) (pattern r) \<Longrightarrow> redirect r = url d \<Longrightarrow>
     evaluate RegExp d (r # post) = evaluate RegExp d post
   \<and> evaluate RegExp d (pre @ r # post) = evaluate RegExp d (pre @ post)
   \<and> TabsUpdate t (redirect r) \<notin> set (evaluate RegExp d rules)
   \<and> (enabled r' \<and> matchesPattern RegExp (url d) (pattern r') \<and> redirect r' \<noteq> url d
       \<longrightarrow> evaluate RegExp d [r, r'] = [TabsUpdate (tabId d) (redirect r')])"
  using evaluate_skip [of r RegExp d pre post] evaluate_never_same_url [of t d RegExp rules]
  by simp

text \<open>C4 on scenario B of the specification, followed by a catch-all rule.\<close>

theorem loop_rule_skipped_witness:
  "enabled rule_loop \<and> matchesPattern (RegExp_i example_engine) (url nav_new) (pattern rule_loop)
   \<and> redirect rule_loop = url nav_new
   \<and> enabled rule_all \<and> matchesPattern (RegExp_i example_engine) (url nav_new) (pattern rule_all)
   \<and> redirect rule_all \<noteq> url nav_new
   \<and> evaluate (RegExp_i example_engine) nav_new [rule_loop] = []
   \<and> evaluate (RegExp_i example_engine) nav_new [rule_loop, rule_all] = [TabsUpdate 7 (js ''https://x.com'')]"
proof -
  have h: "enabled rule_loop" "matchesPattern (RegExp_i example_engine) (url nav_new) (pattern rule_loop)"
    "redirect rule_loop = url nav_new"
    by (simp_all add: example_defs)
  have h': "enabled rule_all \<and> matchesPattern (RegExp_i example_engine) (url nav_new) (pattern rule_all)
     \<and> redirect rule_all \<noteq> url nav_new"
    by (simp add: example_defs)
  note t = loop_rule_skipped [OF h, where post = "[]" and r' = rule_all]
  have a: "evaluate (RegExp_i example_engine) nav_new [rule_loop] = []"
    using t by simp
  have "evaluate (RegExp_i example_engine) nav_new [rule_loop, rule_all] = [TabsUpdate (tabId nav_new) (redirect rule_all)]"
    using t h' by blast
  moreover have "tabId nav_new = 7" "redirect rule_all = (js ''https://x.com'')"
    by (simp_all add: nav_new_def rule_all_def)
  ultimately have b: "evaluate (RegExp_i example_engine) nav_new [rule_loop, rule_all] = [TabsUpdate 7 (js ''https://x.com'')]"
    by simp
  show ?thesis using h h' a b by blast
qed



text \<open>
  C7. \<open>matchesPattern\<close> returns a boolean for every URL and pattern, whatever the
  constructor does. When the constructor throws on the source of a pattern, the pattern
  matches no URL, and a rule with that pattern is passed over by the loop, which goes
  on with the remaining rules.
\<close>

theorem invalid_pattern_never_matches:
  "RegExp (regexPattern p) = Inl e \<Longrightarrow>
     \<not> matchesPattern RegExp u p
   \<and> (pattern r = p \<longrightarrow>
        evaluate RegExp d (r # post) = evaluate RegExp d post
      \<and> evaluate RegExp d (pre @ r # post) = evaluate RegExp d (pre @ post))"
proof -
  assume a: "RegExp (regexPattern p) = Inl e"
  then have n: "\<And>v. \<not> matchesPattern RegExp v p"
    by (simp add: matchesPattern_def)
  then show ?thesis
    using evaluate_skip [of r RegExp d pre post] by auto
qed

text \<open>C7 with a constructor that rejects one pattern: the rule after it still applies.\<close>

theorem invalid_pattern_never_matches_witness:
  "RegExp_rejecting (regexPattern (js ''bad'')) = Inl SyntaxError
   \<and> \<not> matchesPattern RegExp_rejecting (js ''bad'') (js ''bad'')
   \<and> evaluate RegExp_rejecting nav_a [rule_bad, rule_a] = evaluate RegExp_rejecting nav_a [rule_a]
   \<and> evaluate RegExp_rejecting nav_a [rule_a] = [TabsUpdate 7 (js ''https://b.com'')]"
proof -
  have h: "RegExp_rejecting (regexPattern (js ''bad'')) = Inl SyntaxError"
    by (simp add: RegExp_rejecting_def)
  have p: "pattern rule_bad = (js ''bad'')" by (simp add: rule_bad_def)
  note t = invalid_pattern_never_matches [where RegExp = RegExp_rejecting and p = "(js ''bad'')"
      and e = SyntaxError and r = rule_bad and pre = "[]" and post = "[rule_a]" and d = nav_a
      and u = "(js ''bad'')", OF h]
  have a: "\<not> matchesPattern RegExp_rejecting (js ''bad'') (js ''bad'')" using t by blast
  have b: "evaluate RegExp_rejecting nav_a [rule_bad, rule_a] = evaluate RegExp_rejecting nav_a [rule_a]"
    using t p by blast
  have c: "evaluate RegExp_rejecting nav_a [rule_a] = [TabsUpdate 7 (js ''https://b.com'')]"
    by (simp add: example_defs)
  show ?thesis using h a b c by blast
qed

text \<open>
  C8. For an event whose \<open>frameId\<close> is not 0 the listener returns at once: no storage is
  read and no command is issued.
\<close>

theorem subframe_ignored:
  "frameId d \<noteq> 0 \<Longrightarrow> onBeforeNavigate RegExp st d = \<lparr>effects = [], uncaught = None\<rparr>"
  by (simp add: onBeforeNavigate_def)

text \<open>C8 on an event of frame 3.\<close>

theorem subframe_ignored_witness:
  "frameId nav_frame \<noteq> 0
   \<and> onBeforeNavigate (RegExp_i example_engine) store_two_rules nav_frame = \<lparr>effects = [], uncaught = None\<rparr>"
proof -
  have h: "frameId nav_frame \<noteq> 0" by (simp add: nav_frame_def)
  show ?thesis using h subframe_ignored [OF h] by blast
qed

section \<open>Properties of the matcher\<close>

text \<open>
  C2, amended. For a pattern \<open>p\<close> without \<open>*\<close> the matcher accepts a URL exactly when
  the engine builds and runs the expression within its limits and the URL equals \<open>p\<close>
  or \<open>p\<close> followed by one \<open>/\<close> up to the case folding of the regular expression. For
  a URL of ASCII characters, as every serialized URL is, that is equality up to the case
  of the ASCII letters. Where the engine refuses the expression, no URL is accepted.
\<close>

theorem plain_pattern_matches:
  "cu (CHR ''*'') \<notin> set p \<Longrightarrow>
     matchesPattern (RegExp_i eng) u p =
       (\<not> too_large eng (regexPattern p) \<and> \<not> exhausted eng (regexPattern p) u
        \<and> (ci_eq (upperCase eng) u p \<or> ci_eq (upperCase eng) u (p @ js ''/'')))
   \<and> (list_all isASCII u \<longrightarrow>
        matchesPattern (RegExp_i eng) u p =
          (\<not> too_large eng (regexPattern p) \<and> \<not> exhausted eng (regexPattern p) u
           \<and> (ascii_ci_eq u p \<or> ascii_ci_eq u (p @ js ''/''))))"
proof -
  assume a: "cu (CHR ''*'') \<notin> set p"
  have 1: "matchesPattern (RegExp_i eng) u p =
       (\<not> too_large eng (regexPattern p) \<and> \<not> exhausted eng (regexPattern p) u
        \<and> (ci_eq (upperCase eng) u p \<or> ci_eq (upperCase eng) u (p @ js ''/'')))"
    by (simp only: matchesPattern_compiled regex_test_plain [OF a])
  show ?thesis
    using 1 ci_eq_ascii [of u "upperCase eng" p] ci_eq_ascii [of u "upperCase eng" "p @ js ''/''"]
    by simp
qed

text \<open>C2 on scenario A of the specification.\<close>

theorem plain_pattern_matches_witness:
  "cu (CHR ''*'') \<notin> set (js ''https://example.com/old'')
   \<and> matchesPattern (RegExp_i example_engine) (js ''https://example.com/old'')
        (js ''https://example.com/old'')
   \<and> matchesPattern (RegExp_i example_engine) (js ''https://example.com/old/'')
        (js ''https://example.com/old'')
   \<and> matchesPattern (RegExp_i example_engine) (js ''HTTPS://Example.COM/Old/'')
        (js ''https://example.com/old'')
   \<and> \<not> matchesPattern (RegExp_i example_engine) (js ''https://example.com/old2'')
        (js ''https://example.com/old'')"
proof -
  have h: "cu (CHR ''*'') \<notin> set (js ''https://example.com/old'')"
    by (simp add: js_def cu_def)
  have l: "\<not> too_large example_engine (regexPattern (js ''https://example.com/old''))"
    "\<And>u. \<not> exhausted example_engine (regexPattern (js ''https://example.com/old'')) u"
    by (simp_all add: example_defs)
  note t = plain_pattern_matches [OF h, where eng = example_engine]
  have a: "matchesPattern (RegExp_i example_engine) (js ''https://example.com/old'')
      (js ''https://example.com/old'')"
  proof -
    have "list_all isASCII (js ''https://example.com/old'')"
      by (simp add: js_def cu_def isASCII_def)
    moreover have "ascii_ci_eq (js ''https://example.com/old'') (js ''https://example.com/old'')"
      by (simp add: ascii_ci_eq_def)
    ultimately show ?thesis using t [of "js ''https://example.com/old''"] l by blast
  qed
  have b: "matchesPattern (RegExp_i example_engine) (js ''https://example.com/old/'')
      (js ''https://example.com/old'')"
  proof -
    have "list_all isASCII (js ''https://example.com/old/'')"
      by (simp add: js_def cu_def isASCII_def)
    moreover have "ascii_ci_eq (js ''https://example.com/old/'')
        (js ''https://example.com/old'' @ js ''/'')"
      by (simp add: ascii_ci_eq_def js_def)
    ultimately show ?thesis using t [of "js ''https://example.com/old/''"] l by blast
  qed
  have c: "matchesPattern (RegExp_i example_engine) (js ''HTTPS://Example.COM/Old/'')
      (js ''https://example.com/old'')"
  proof -
    have "list_all isASCII (js ''HTTPS://Example.COM/Old/'')"
      by (simp add: js_def cu_def isASCII_def)
    moreover have "ascii_ci_eq (js ''HTTPS://Example.COM/Old/'')
        (js ''https://example.com/old'' @ js ''/'')"
      by (simp add: ascii_ci_eq_def asciiUpper_def js_def cu_def)
    ultimately show ?thesis using t [of "js ''HTTPS://Example.COM/Old/''"] l by blast
  qed
  have d: "\<not> matchesPattern (RegExp_i example_engine) (js ''https://example.com/old2'')
      (js ''https://example.com/old'')"
  proof -
    have "list_all isASCII (js ''https://example.com/old2'')"
      by (simp add: js_def cu_def isASCII_def)
    moreover have "\<not> ascii_ci_eq (js ''https://example.com/old2'') (js ''https://example.com/old'')"
      by (simp add: ascii_ci_eq_def js_def)
    moreover have "\<not> ascii_ci_eq (js ''https://example.com/old2'')
        (js ''https://example.com/old'' @ js ''/'')"
      by (simp add: ascii_ci_eq_def asciiUpper_def js_def cu_def)
    ultimately show ?thesis using t [of "js ''https://example.com/old2''"] by blast
  qed
  show ?thesis using h a b c d by blast
qed

text \<open>
  C2 as stated fails on a pattern beyond the engine's size limit: \<open>long_url\<close> has no
  \<open>*\<close> and equals itself, yet as a pattern it accepts no URL, itself included, because
  the constructor throws and \<open>catch\<close> returns \<open>false\<close>.
\<close>

theorem plain_pattern_limit_counterexample:
  "cu (CHR ''*'') \<notin> set long_url \<and> list_all isASCII long_url
   \<and> ascii_ci_eq long_url long_url
   \<and> \<not> matchesPattern (RegExp_i example_engine) long_url long_url"
  using long_url_facts by (simp add: matchesPattern_compiled ascii_ci_eq_def)

text \<open>
  C3, amended. For a pattern that ends in \<open>*\<close>, take a URL that begins, up to case,
  with the text before that final \<open>*\<close> and goes on with any characters other than line
  terminators, which a serialized URL does not contain. The matcher accepts it exactly
  when the engine builds and runs the expression within its limits.
\<close>

theorem star_suffix_accepts:
  "ci_eq (upperCase eng) u pre \<or> (list_all isASCII u \<and> ascii_ci_eq u pre) \<Longrightarrow>
   list_all (\<lambda>c. \<not> isLineTerminator c) rest \<Longrightarrow>
   matchesPattern (RegExp_i eng) (u @ rest) (pre @ js ''*'') =
     (\<not> too_large eng (regexPattern (pre @ js ''*''))
      \<and> \<not> exhausted eng (regexPattern (pre @ js ''*'')) (u @ rest))"
proof -
  assume a: "ci_eq (upperCase eng) u pre \<or> (list_all isASCII u \<and> ascii_ci_eq u pre)"
    and b: "list_all (\<lambda>c. \<not> isLineTerminator c) rest"
  have "ci_eq (upperCase eng) u pre"
    using a ci_eq_ascii [of u "upperCase eng" pre] by blast
  then have "regex_test (upperCase eng) (compiled (pre @ js ''*'')) (u @ rest)"
    using b by (rule regex_test_prefix)
  then show ?thesis by (simp only: matchesPattern_compiled) simp
qed

text \<open>C3 on the pattern \<open>https://example.com/*\<close>.\<close>

theorem star_suffix_accepts_witness:
  "list_all isASCII (js ''https://EXAMPLE.com/'')
   \<and> ascii_ci_eq (js ''https://EXAMPLE.com/'') (js ''https://example.com/'')
   \<and> list_all (\<lambda>c. \<not> isLineTerminator c) (js ''new?x=1#top'')
   \<and> matchesPattern (RegExp_i example_engine) (js ''https://EXAMPLE.com/'' @ js ''new?x=1#top'')
        (js ''https://example.com/'' @ js ''*'')"
proof -
  have h1: "list_all isASCII (js ''https://EXAMPLE.com/'')
      \<and> ascii_ci_eq (js ''https://EXAMPLE.com/'') (js ''https://example.com/'')"
    by (simp add: ascii_ci_eq_def asciiUpper_def isASCII_def js_def cu_def)
  have h2: "list_all (\<lambda>c. \<not> isLineTerminator c) (js ''new?x=1#top'')"
    by (simp add: isLineTerminator_def js_def cu_def)
  have l: "\<not> too_large example_engine (regexPattern (js ''https://example.com/'' @ js ''*''))"
    "\<not> exhausted example_engine (regexPattern (js ''https://example.com/'' @ js ''*''))
        (js ''https://EXAMPLE.com/'' @ js ''new?x=1#top'')"
    by (simp_all add: example_defs)
  have "matchesPattern (RegExp_i example_engine) (js ''https://EXAMPLE.com/'' @ js ''new?x=1#top'')
        (js ''https://example.com/'' @ js ''*'')"
    using star_suffix_accepts [where eng = example_engine, OF disjI2 [OF h1] h2] l by blast
  then show ?thesis using h1 h2 by blast
qed

text \<open>
  C3 as stated fails on a pattern beyond the engine's size limit: the URL \<open>long_url\<close>
  begins with the text before the \<open>*\<close> of the pattern \<open>long_url*\<close> and is rejected.
\<close>

theorem star_suffix_limit_counterexample:
  "list_all isASCII long_url \<and> ascii_ci_eq long_url long_url
   \<and> list_all (\<lambda>c. \<not> isLineTerminator c) []
   \<and> \<not> matchesPattern (RegExp_i example_engine) (long_url @ []) (long_url @ js ''*'')"
  using long_url_facts by (simp add: matchesPattern_compiled ascii_ci_eq_def)

text \<open>
  C10, amended. For every pattern the source handed to the constructor is syntactically
  valid: it parses to the expression \<open>compiled p\<close>. The constructor throws exactly when
  the engine refuses the source for its size, and then, or when the \<open>test\<close> runs out of
  resources, the \<open>catch\<close> branch returns \<open>false\<close>. On a given engine \<open>matchesPattern\<close>
  is a total function of the URL and the pattern.
\<close>

theorem regexPattern_compiles:
  "parse (regexPattern p) = Inr (compiled p)
   \<and> RegExp_i eng (regexPattern p) =
       (if too_large eng (regexPattern p) then Inl SyntaxError
        else Inr (\<lambda>input. \<not> exhausted eng (regexPattern p) input
                    \<and> regex_test (upperCase eng) (compiled p) input))
   \<and> matchesPattern (RegExp_i eng) u p =
       (\<not> too_large eng (regexPattern p) \<and> \<not> exhausted eng (regexPattern p) u
        \<and> regex_test (upperCase eng) (compiled p) u)"
  using parse_regexPattern [of p] RegExp_i_regexPattern [of eng p] matchesPattern_compiled [of eng u p]
  by blast

text \<open>C10 on a pattern made of every special character.\<close>

theorem regexPattern_compiles_witness:
  "parse (regexPattern (js ''a.b*(c)[d]{e}|^$+?'')) = Inr (compiled (js ''a.b*(c)[d]{e}|^$+?''))
   \<and> regexPattern (js ''a.b*'')
       = [cu (CHR ''^''), cu (CHR ''a''), backslash, cu (CHR ''.''), cu (CHR ''b''),
          cu (CHR ''.''), cu (CHR ''*''), cu (CHR ''$'')]"
proof -
  have a: "parse (regexPattern (js ''a.b*(c)[d]{e}|^$+?'')) = Inr (compiled (js ''a.b*(c)[d]{e}|^$+?''))"
    using regexPattern_compiles [of "js ''a.b*(c)[d]{e}|^$+?''"] by blast
  have b: "regexPattern (js ''a.b*'')
       = [cu (CHR ''^''), cu (CHR ''a''), backslash, cu (CHR ''.''), cu (CHR ''b''),
          cu (CHR ''.''), cu (CHR ''*''), cu (CHR ''$'')]"
    by (simp add: example_defs)
  show ?thesis using a b by blast
qed

text \<open>
  C10 as stated fails on a pattern beyond the engine's size limit: the constructor
  throws on the source of \<open>long_url\<close> and the \<open>catch\<close> branch is taken.
\<close>

theorem regexPattern_limit_counterexample:
  "RegExp_i example_engine (regexPattern long_url) = Inl SyntaxError
   \<and> \<not> matchesPattern (RegExp_i example_engine) long_url long_url"
  using long_url_facts by (simp add: RegExp_i_regexPattern matchesPattern_compiled)

section \<open>Properties of the storage handling\<close>

text \<open>
  C5. The initializer writes \<open>redirectRules: []\<close> exactly when both reads succeed and
  the key is absent from the current area. When the key holds a list, the empty list
  included, nothing is written and the storage is unchanged. Running the initializer on
  the storage it left behind changes nothing.
\<close>

theorem onInstalled_idempotent:
  "filter isStorageSet (effects (onInstalled st)) =
     (if \<not> get_fails (local_area st) \<and> \<not> get_fails (area_of st (storageFor (local_area st)))
         \<and> redirectRules (area_of st (storageFor (local_area st))) = None
      then [StorageSet (storageFor (local_area st)) []]
      else [])
   \<and> (redirectRules (area_of st (storageFor (local_area st))) = Some rs \<longrightarrow>
        filter isStorageSet (effects (onInstalled st)) = [] \<and> store_after st (onInstalled st) = st)
   \<and> store_after (store_after st (onInstalled st)) (onInstalled (store_after st (onInstalled st)))
       = store_after st (onInstalled st)"
  using writes_onInstalled [of st] store_after_onInstalled [of st] onInstalled_twice [of st]
  by simp

text \<open>C5 on a fresh storage and on the storage the first run leaves behind.\<close>

theorem onInstalled_idempotent_witness:
  "redirectRules (area_of store_empty_list (storageFor (local_area store_empty_list))) = Some []
   \<and> filter isStorageSet (effects (onInstalled store_empty_list)) = []
   \<and> store_after store_empty_list (onInstalled store_empty_list) = store_empty_list
   \<and> filter isStorageSet (effects (onInstalled store_fresh)) = [StorageSet Sync []]
   \<and> store_after store_fresh (onInstalled store_fresh) = store_empty_list
   \<and> store_after store_empty_list (onInstalled store_empty_list) = store_empty_list"
proof -
  have h: "redirectRules (area_of store_empty_list (storageFor (local_area store_empty_list))) = Some []"
    by (simp add: example_defs)
  have a: "filter isStorageSet (effects (onInstalled store_empty_list)) = []
     \<and> store_after store_empty_list (onInstalled store_empty_list) = store_empty_list"
    using onInstalled_idempotent [of store_empty_list "[]"] h by blast
  have b: "filter isStorageSet (effects (onInstalled store_fresh)) = [StorageSet Sync []]"
    by (simp add: example_defs)
  have c: "store_after store_fresh (onInstalled store_fresh) = store_empty_list"
    by (simp add: example_defs)
  show ?thesis using h a b c by blast
qed

text \<open>
  C9, amended. When the key \<open>redirectRules\<close> is absent, the listener behaves exactly as
  on the same storage holding the empty list. When the read of the rules fails, no
  command is issued and the rules are not read again, and the storage callback ends
  with an uncaught \<open>TypeError\<close>.
\<close>

theorem missing_rules_no_redirect:
  "redirectRules (area_of st (storageFor (local_area st))) = None
     \<or> get_fails (area_of st (storageFor (local_area st))) \<Longrightarrow>
     filter isTabsUpdate (effects (onBeforeNavigate RegExp st d)) = []
   \<and> length (filter isRulesGet (effects (onBeforeNavigate RegExp st d))) \<le> 1
   \<and> (redirectRules (area_of st (storageFor (local_area st))) = None \<longrightarrow>
        onBeforeNavigate RegExp st d =
          onBeforeNavigate RegExp (applyWrite (StorageSet (storageFor (local_area st)) []) st) d)
   \<and> (frameId d = 0 \<and> \<not> get_fails (local_area st)
        \<and> get_fails (area_of st (storageFor (local_area st))) \<longrightarrow>
        onBeforeNavigate RegExp st d =
          \<lparr>effects = [StorageGet Local ''useSync'',
                      StorageGet (storageFor (local_area st)) ''redirectRules''],
           uncaught = Some TypeError\<rparr>)"
proof -
  assume a: "redirectRules (area_of st (storageFor (local_area st))) = None
     \<or> get_fails (area_of st (storageFor (local_area st)))"
  have 1: "filter isTabsUpdate (effects (onBeforeNavigate RegExp st d)) = []"
    using a by (auto simp: commands_onBeforeNavigate rulesOf_def)
  have 2: "length (filter isRulesGet (effects (onBeforeNavigate RegExp st d))) \<le> 1"
    by (simp add: onBeforeNavigate_def getStorage_def storage_get_def performed_def rules_get_evaluate)
  have 3: "redirectRules (area_of st (storageFor (local_area st))) = None \<longrightarrow>
        onBeforeNavigate RegExp st d =
          onBeforeNavigate RegExp (applyWrite (StorageSet (storageFor (local_area st)) []) st) d"
    using onBeforeNavigate_absent by blast
  have 4: "frameId d = 0 \<and> \<not> get_fails (local_area st)
        \<and> get_fails (area_of st (storageFor (local_area st))) \<longrightarrow>
        onBeforeNavigate RegExp st d =
          \<lparr>effects = [StorageGet Local ''useSync'',
                      StorageGet (storageFor (local_area st)) ''redirectRules''],
           uncaught = Some TypeError\<rparr>"
    by (simp add: onBeforeNavigate_def getStorage_def storage_get_def performed_def)
  show ?thesis using 1 2 3 4 by blast
qed

text \<open>C9 on a fresh storage and on a storage whose read fails.\<close>

theorem missing_rules_no_redirect_witness:
  "redirectRules (area_of store_fresh (storageFor (local_area store_fresh))) = None
   \<and> onBeforeNavigate (RegExp_i example_engine) store_fresh nav_a = onBeforeNavigate (RegExp_i example_engine) store_empty_list nav_a
   \<and> onBeforeNavigate (RegExp_i example_engine) store_fresh nav_a =
       \<lparr>effects = [StorageGet Local ''useSync'', StorageGet Sync ''redirectRules''], uncaught = None\<rparr>
   \<and> get_fails (area_of store_failing (storageFor (local_area store_failing)))
   \<and> filter isTabsUpdate (effects (onBeforeNavigate (RegExp_i example_engine) store_failing nav_a)) = []"
proof -
  have h: "redirectRules (area_of store_fresh (storageFor (local_area store_fresh))) = None"
    by (simp add: example_defs)
  have w: "applyWrite (StorageSet (storageFor (local_area store_fresh)) []) store_fresh = store_empty_list"
    by (simp add: example_defs)
  have a: "onBeforeNavigate (RegExp_i example_engine) store_fresh nav_a = onBeforeNavigate (RegExp_i example_engine) store_empty_list nav_a"
    using missing_rules_no_redirect [of store_fresh "RegExp_i example_engine" nav_a] h w by simp
  have b: "onBeforeNavigate (RegExp_i example_engine) store_fresh nav_a =
       \<lparr>effects = [StorageGet Local ''useSync'', StorageGet Sync ''redirectRules''], uncaught = None\<rparr>"
    by (simp add: example_defs)
  have f: "get_fails (area_of store_failing (storageFor (local_area store_failing)))"
    by (simp add: example_defs)
  have c: "filter isTabsUpdate (effects (onBeforeNavigate (RegExp_i example_engine) store_failing nav_a)) = []"
    using missing_rules_no_redirect [of store_failing "RegExp_i example_engine" nav_a] f by blast
  show ?thesis using h a b f c by blast
qed

text \<open>
  C9 as stated fails on a failing read: the callback ends with a \<open>TypeError\<close>, which it
  does not on the empty list.
\<close>

theorem failed_read_counterexample:
  "get_fails (area_of store_failing (storageFor (local_area store_failing)))
   \<and> uncaught (onBeforeNavigate (RegExp_i example_engine) store_failing nav_a) = Some TypeError
   \<and> uncaught (onBeforeNavigate (RegExp_i example_engine) store_empty_list nav_a) = None"
  by (simp add: example_defs)

end
